theory Spec2Isabelle
  imports Main
begin

section \<open>Data model\<close>

text \<open>
  A task is the typed dictionary \<^verbatim>\<open>Task\<close> of the program: a title, a completion flag and a
  priority. The store is the global list \<^verbatim>\<open>tasks\<close>; every operation below takes the
  list and, where the program mutates it, returns the list after the call.
  Priorities are Python integers, indices into the store are natural numbers. The field
  \<^verbatim>\<open>done\<close> is called \<open>is_done\<close> here. A title is a Python \<^verbatim>\<open>str\<close>, a sequence of
  characters; the type \<open>'c\<close> of the characters is left open.
\<close>

record 'c task =
  title :: "'c list"
  is_done :: bool
  priority :: int

type_synonym 'c store = "'c task list"

section \<open>View projector\<close>

text \<open>\<^verbatim>\<open>list(enumerate(tasks))\<close>.\<close>

definition indexed_tasks :: "'c store \<Rightarrow> (nat \<times> 'c task) list" where
  "indexed_tasks tasks = enumerate 0 tasks"

text \<open>
  \<^verbatim>\<open>sorted(indexed, key=lambda pair: pair[1]["priority"])\<close>. Python's \<^verbatim>\<open>sorted\<close> is a
  stable sort; \<^const>\<open>sort_key\<close> is the stable insertion sort of the list library.
\<close>

definition sorted_indexed_by_priority :: "(nat \<times> 'c task) list \<Rightarrow> (nat \<times> 'c task) list" where
  "sorted_indexed_by_priority indexed = sort_key (\<lambda>pair. priority (snd pair)) indexed"

definition build_display_groups :: "'c store \<Rightarrow> (nat \<times> 'c task) list \<times> (nat \<times> 'c task) list" where
  "build_display_groups tasks =
     (let sorted_indexed = sorted_indexed_by_priority (indexed_tasks tasks);
          undone = filter (\<lambda>pair. \<not> is_done (snd pair)) sorted_indexed;
          done_group = filter (\<lambda>pair. is_done (snd pair)) sorted_indexed
      in (undone, done_group))"

definition build_display_mapping :: "'c store \<Rightarrow> nat list" where
  "build_display_mapping tasks =
     (case build_display_groups tasks of (undone, done_group) \<Rightarrow> map fst (undone @ done_group))"

section \<open>Strings\<close>

text \<open>
  \<^verbatim>\<open>str.isspace\<close> and \<^verbatim>\<open>str.lower\<close> are built into Python and follow the tables of the
  Unicode standard. They are parameters here: \<open>isspace\<close>, a predicate on characters, and
  \<open>lower\<close>, a function on strings, are arguments of every function whose source calls
  them, and every theorem below holds for all of their values.

  \<open>strip isspace\<close> is \<^verbatim>\<open>str.strip()\<close>: it removes the characters that are white space
  from both ends of the string.
\<close>

definition strip :: "('c \<Rightarrow> bool) \<Rightarrow> 'c list \<Rightarrow> 'c list" where
  "strip isspace s = rev (dropWhile isspace (rev (dropWhile isspace s)))"



text \<open>
  The examples are evaluated on the type \<open>char\<close>, read as the characters with the code
  points 0 to 255. On these, \<^verbatim>\<open>str.isspace\<close> holds of the twelve characters of
  \<open>latin1_isspace\<close> (the no-break space 0xA0 and the next-line control 0x85 among them),
  and \<^verbatim>\<open>str.lower\<close> maps every character by itself: the letters A to Z and the
  letters 0xC0 to 0xDE other than the multiplication sign 0xD7 go to the character 32
  places up, every other character stays.
\<close>

definition latin1_isspace :: "char \<Rightarrow> bool" where
  "latin1_isspace c = (c \<in> set [CHR 0x09, CHR 0x0A, CHR 0x0B, CHR 0x0C, CHR 0x0D,
                                  CHR 0x1C, CHR 0x1D, CHR 0x1E, CHR 0x1F, CHR 0x20,
                                  CHR 0x85, CHR 0xA0])"

definition latin1_lower_char :: "char \<Rightarrow> char" where
  "latin1_lower_char c =
     (case map_of (zip
        (''ABCDEFGHIJKLMNOPQRSTUVWXYZ'' @
         [CHR 0xC0, CHR 0xC1, CHR 0xC2, CHR 0xC3, CHR 0xC4, CHR 0xC5, CHR 0xC6, CHR 0xC7,
          CHR 0xC8, CHR 0xC9, CHR 0xCA, CHR 0xCB, CHR 0xCC, CHR 0xCD, CHR 0xCE, CHR 0xCF,
          CHR 0xD0, CHR 0xD1, CHR 0xD2, CHR 0xD3, CHR 0xD4, CHR 0xD5, CHR 0xD6,
          CHR 0xD8, CHR 0xD9, CHR 0xDA, CHR 0xDB, CHR 0xDC, CHR 0xDD, CHR 0xDE])
        (''abcdefghijklmnopqrstuvwxyz'' @
         [CHR 0xE0, CHR 0xE1, CHR 0xE2, CHR 0xE3, CHR 0xE4, CHR 0xE5, CHR 0xE6, CHR 0xE7,
          CHR 0xE8, CHR 0xE9, CHR 0xEA, CHR 0xEB, CHR 0xEC, CHR 0xED, CHR 0xEE, CHR 0xEF,
          CHR 0xF0, CHR 0xF1, CHR 0xF2, CHR 0xF3, CHR 0xF4, CHR 0xF5, CHR 0xF6,
          CHR 0xF8, CHR 0xF9, CHR 0xFA, CHR 0xFB, CHR 0xFC, CHR 0xFD, CHR 0xFE])) c of
        Some l \<Rightarrow> l
      | None \<Rightarrow> c)"

definition latin1_lower :: "string \<Rightarrow> string" where
  "latin1_lower s = map latin1_lower_char s"

section \<open>Task store\<close>

text \<open>
  The program reports every failure by printing a message and returning; the messages are
  the constructors of \<open>error\<close>:
  \<^item> \<open>TitleEmpty\<close>: ``Title cannot be empty.''
  \<^item> \<open>TitleExists\<close>: ``Task with this title already exists.''
  \<^item> \<open>NoTasksAvailable\<close>: ``No tasks available.''
  \<^item> \<open>NotANumber\<close>: ``Please enter a valid number.''
  \<^item> \<open>InvalidTaskNumber\<close>: ``Invalid task number.''
  \<^item> \<open>KeywordEmpty\<close>: ``Keyword cannot be empty.''

  \<open>IndexError\<close> is Python's exception for a list index out of range, and
  \<open>PriorityNotEntered\<close> stands for a priority prompt that never gets a valid answer.
\<close>

datatype error =
    TitleEmpty
  | TitleExists
  | PriorityNotEntered
  | NoTasksAvailable
  | NotANumber
  | InvalidTaskNumber
  | IndexError
  | KeywordEmpty

text \<open>
  A line read with \<^verbatim>\<open>int(input(...))\<close> is an \<open>int option\<close>: \<open>None\<close> when the conversion
  raises \<^verbatim>\<open>ValueError\<close>.

  \<open>input_priority\<close> loops until the user enters 1, 2 or 3. The argument is the sequence of
  lines entered at the prompt; when none of them is valid the loop does not return,
  which is the value \<open>None\<close>.
\<close>

fun input_priority :: "int option list \<Rightarrow> int option" where
  "input_priority [] = None"
| "input_priority (None # entered) = input_priority entered"
| "input_priority (Some p # entered) =
     (if p \<in> set [1, 2, 3] then Some p else input_priority entered)"

text \<open>\<^verbatim>\<open>any(t["title"].lower() == title.lower() for t in tasks)\<close>.\<close>

definition title_exists :: "('c list \<Rightarrow> 'c list) \<Rightarrow> 'c store \<Rightarrow> 'c list \<Rightarrow> bool" where
  "title_exists lower tasks ttl = list_ex (\<lambda>t. lower (title t) = lower ttl) tasks"

definition add_task ::
  "('c list \<Rightarrow> 'c list) \<Rightarrow> ('c \<Rightarrow> bool) \<Rightarrow> 'c store \<Rightarrow> 'c list \<Rightarrow> int option list
     \<Rightarrow> (error + unit) \<times> 'c store" where
  "add_task lower isspace tasks line entered =
     (let ttl = strip isspace line in
      if ttl = [] then (Inl TitleEmpty, tasks)
      else if title_exists lower tasks ttl then (Inl TitleExists, tasks)
      else (case input_priority entered of
              None \<Rightarrow> (Inl PriorityNotEntered, tasks)
            | Some p \<Rightarrow> (Inr (), tasks @ [\<lparr>title = ttl, is_done = False, priority = p\<rparr>])))"

text \<open>
  \<open>get_display_index\<close> returns the original index of the entered display number. On an
  empty store it returns before it reads anything, so the entered line is ignored there.
\<close>

definition get_display_index :: "'c store \<Rightarrow> int option \<Rightarrow> error + nat" where
  "get_display_index tasks entered =
     (if tasks = [] then Inl NoTasksAvailable
      else let mapping = build_display_mapping tasks in
        (case entered of
           None \<Rightarrow> Inl NotANumber
         | Some idx \<Rightarrow>
             if 1 \<le> idx \<and> idx \<le> int (length mapping) then Inr (mapping ! nat (idx - 1))
             else Inl InvalidTaskNumber))"



text \<open>
  \<^verbatim>\<open>tasks[orig_idx]["done"] = not tasks[orig_idx]["done"]\<close> and \<^verbatim>\<open>del tasks[orig_idx]\<close>
  raise \<^verbatim>\<open>IndexError\<close> when the index is not below the length of the list.
\<close>

definition toggle_task :: "'c store \<Rightarrow> int option \<Rightarrow> (error + unit) \<times> 'c store" where
  "toggle_task tasks entered =
     (case get_display_index tasks entered of
        Inl e \<Rightarrow> (Inl e, tasks)
      | Inr orig_idx \<Rightarrow>
          if orig_idx < length tasks
          then (Inr (), tasks[orig_idx := (tasks ! orig_idx)\<lparr>is_done := \<not> is_done (tasks ! orig_idx)\<rparr>])
          else (Inl IndexError, tasks))"

definition delete_task :: "'c store \<Rightarrow> int option \<Rightarrow> (error + unit) \<times> 'c store" where
  "delete_task tasks entered =
     (case get_display_index tasks entered of
        Inl e \<Rightarrow> (Inl e, tasks)
      | Inr orig_idx \<Rightarrow>
          if orig_idx < length tasks
          then (Inr (), take orig_idx tasks @ drop (Suc orig_idx) tasks)
          else (Inl IndexError, tasks))"

section \<open>Runs of the program\<close>




section \<open>Store invariants\<close>




section \<open>The display mapping\<close>

lemmas view_defs =
  build_display_mapping_def build_display_groups_def sorted_indexed_by_priority_def
  indexed_tasks_def


lemmas op_defs = add_task_def toggle_task_def delete_task_def get_display_index_def


lemma in_indexed_tasks: "p \<in> set (indexed_tasks tasks) \<longleftrightarrow> fst p < length tasks \<and> snd p = tasks ! fst p"
  by (cases p) (auto simp: indexed_tasks_def in_set_enumerate_eq)

lemma set_sorted_indexed: "set (sorted_indexed_by_priority xs) = set xs"
  by (simp add: sorted_indexed_by_priority_def)

lemma distinct_fst_sorted_indexed:
  "distinct (map fst (sorted_indexed_by_priority (indexed_tasks tasks)))"
proof -
  have "inj_on fst (set (indexed_tasks tasks))"
    by (rule inj_onI) (auto simp: in_indexed_tasks intro: prod_eqI)
  moreover have "distinct (indexed_tasks tasks)"
    by (simp add: indexed_tasks_def)
  ultimately show ?thesis
    by (simp add: distinct_map sorted_indexed_by_priority_def)
qed

lemma fst_groups: "fst (build_display_groups tasks) =
    filter (\<lambda>pair. \<not> is_done (snd pair)) (sorted_indexed_by_priority (indexed_tasks tasks))"
  by (simp add: build_display_groups_def Let_def)

lemma snd_groups: "snd (build_display_groups tasks) =
    filter (\<lambda>pair. is_done (snd pair)) (sorted_indexed_by_priority (indexed_tasks tasks))"
  by (simp add: build_display_groups_def Let_def)

lemma mapping_groups: "build_display_mapping tasks =
    map fst (fst (build_display_groups tasks)) @ map fst (snd (build_display_groups tasks))"
  by (simp add: build_display_mapping_def split: prod.split)

lemma in_undone_group: "p \<in> set (fst (build_display_groups tasks)) \<longleftrightarrow>
    fst p < length tasks \<and> snd p = tasks ! fst p \<and> \<not> is_done (tasks ! fst p)"
  by (auto simp: fst_groups set_sorted_indexed in_indexed_tasks)

lemma in_done_group: "p \<in> set (snd (build_display_groups tasks)) \<longleftrightarrow>
    fst p < length tasks \<and> snd p = tasks ! fst p \<and> is_done (tasks ! fst p)"
  by (auto simp: snd_groups set_sorted_indexed in_indexed_tasks)

lemma set_mapping: "set (build_display_mapping tasks) = {0..<length tasks}"
proof -
  have "set (build_display_mapping tasks) = fst ` set (sorted_indexed_by_priority (indexed_tasks tasks))"
    unfolding mapping_groups fst_groups snd_groups by auto
  also have "\<dots> = {0..<length tasks}"
    by (simp add: set_sorted_indexed indexed_tasks_def flip: set_map)
  finally show ?thesis .
qed

lemma distinct_mapping: "distinct (build_display_mapping tasks)"
proof -
  let ?S = "sorted_indexed_by_priority (indexed_tasks tasks)"
  have d: "distinct (map fst ?S)" by (rule distinct_fst_sorted_indexed)
  have "distinct (map fst (filter (\<lambda>pair. \<not> is_done (snd pair)) ?S))"
       "distinct (map fst (filter (\<lambda>pair. is_done (snd pair)) ?S))"
    using d by (simp_all add: distinct_map_filter)
  moreover have "set (map fst (fst (build_display_groups tasks))) \<inter>
        set (map fst (snd (build_display_groups tasks))) = {}"
    by (auto simp: in_undone_group in_done_group)
  ultimately show ?thesis
    unfolding mapping_groups by (simp add: fst_groups snd_groups)
qed

lemma length_mapping: "length (build_display_mapping tasks) = length tasks"
  using distinct_card [OF distinct_mapping, of tasks] by (simp add: set_mapping)

lemma mapping_nth_less: "k < length tasks \<Longrightarrow> build_display_mapping tasks ! k < length tasks"
  using nth_mem [of k "build_display_mapping tasks"] by (simp add: length_mapping set_mapping)

lemma undone_before_done:
  assumes i: "i < length tasks" and j: "j < length tasks"
    and ui: "\<not> is_done (tasks ! (build_display_mapping tasks ! i))"
    and dj: "is_done (tasks ! (build_display_mapping tasks ! j))"
  shows "i < j"
proof -
  let ?U = "map fst (fst (build_display_groups tasks))"
  let ?D = "map fst (snd (build_display_groups tasks))"
  have m: "build_display_mapping tasks = ?U @ ?D" by (rule mapping_groups)
  have len: "length ?U + length ?D = length tasks"
    using length_mapping [of tasks] by (simp add: m)
  have U: "\<And>x. x \<in> set ?U \<Longrightarrow> \<not> is_done (tasks ! x)"
    by (auto simp: in_undone_group)
  have D: "\<And>x. x \<in> set ?D \<Longrightarrow> is_done (tasks ! x)"
    by (auto simp: in_done_group)
  have "i < length ?U"
  proof (rule ccontr)
    assume "\<not> i < length ?U"
    then have "(?U @ ?D) ! i \<in> set ?D"
      using i len by (simp add: nth_append)
    then show False using D ui m by simp
  qed
  moreover have "\<not> j < length ?U"
  proof
    assume "j < length ?U"
    then have "(?U @ ?D) ! j \<in> set ?U"
      by (simp add: nth_append)
    then show False using U dj m by simp
  qed
  ultimately show ?thesis by simp
qed


text \<open>
  C1. The display mapping of a store of \<open>n\<close> tasks has length \<open>n\<close> and is a permutation of
  the original indices \<open>0..n-1\<close> (it has no repetition and its elements are exactly these
  indices); wherever an undone task and a done task are displayed, the undone one
  comes first; and the mapping is the original indices of the undone group followed by
  those of the done group, in the order of \<open>build_display_groups\<close>, whose groups hold
  exactly the undone and the done tasks with their original indices. The statement
  holds for every store, the empty one included.
\<close>

theorem display_mapping_permutation:
  "length (build_display_mapping tasks) = length tasks
   \<and> distinct (build_display_mapping tasks)
   \<and> set (build_display_mapping tasks) = {0..<length tasks}
   \<and> (\<forall>i j. i < length tasks \<longrightarrow> j < length tasks
         \<longrightarrow> \<not> is_done (tasks ! (build_display_mapping tasks ! i))
         \<longrightarrow> is_done (tasks ! (build_display_mapping tasks ! j))
         \<longrightarrow> i < j)
   \<and> build_display_mapping tasks =
       map fst (fst (build_display_groups tasks)) @ map fst (snd (build_display_groups tasks))
   \<and> (\<forall>p. p \<in> set (fst (build_display_groups tasks)) \<longleftrightarrow>
         fst p < length tasks \<and> snd p = tasks ! fst p \<and> \<not> is_done (tasks ! fst p))
   \<and> (\<forall>p. p \<in> set (snd (build_display_groups tasks)) \<longleftrightarrow>
         fst p < length tasks \<and> snd p = tasks ! fst p \<and> is_done (tasks ! fst p))"
proof -
  have "\<forall>i j. i < length tasks \<longrightarrow> j < length tasks
         \<longrightarrow> \<not> is_done (tasks ! (build_display_mapping tasks ! i))
         \<longrightarrow> is_done (tasks ! (build_display_mapping tasks ! j))
         \<longrightarrow> i < j"
    using undone_before_done by blast
  moreover have "build_display_mapping tasks =
       map fst (fst (build_display_groups tasks)) @ map fst (snd (build_display_groups tasks))"
    by (rule mapping_groups)
  moreover have "\<forall>p. p \<in> set (fst (build_display_groups tasks)) \<longleftrightarrow>
         fst p < length tasks \<and> snd p = tasks ! fst p \<and> \<not> is_done (tasks ! fst p)"
    using in_undone_group by blast
  moreover have "\<forall>p. p \<in> set (snd (build_display_groups tasks)) \<longleftrightarrow>
         fst p < length tasks \<and> snd p = tasks ! fst p \<and> is_done (tasks ! fst p)"
    using in_done_group by blast
  ultimately show ?thesis
    using length_mapping distinct_mapping set_mapping by blast
qed

text \<open>
  The theorem at a store of three tasks, the second one done: the mapping is
  \<open>[2, 0, 1]\<close>, the undone task displayed first precedes the done task displayed third.
\<close>

theorem display_mapping_permutation_witness:
  "build_display_mapping
     [\<lparr>title = ''a'', is_done = False, priority = 2\<rparr>,
      \<lparr>title = ''b'', is_done = True, priority = 1\<rparr>,
      \<lparr>title = ''c'', is_done = False, priority = 1\<rparr>] = [2, 0, 1]
   \<and> distinct (build_display_mapping
     [\<lparr>title = ''a'', is_done = False, priority = 2\<rparr>,
      \<lparr>title = ''b'', is_done = True, priority = 1\<rparr>,
      \<lparr>title = ''c'', is_done = False, priority = 1\<rparr>])
   \<and> (0::nat) < 2"
proof -
  let ?ts = "[\<lparr>title = ''a'', is_done = False, priority = 2\<rparr>,
      \<lparr>title = ''b'', is_done = True, priority = 1\<rparr>,
      \<lparr>title = ''c'', is_done = False, priority = 1\<rparr>]"
  have m: "build_display_mapping ?ts = [2, 0, 1]"
    by (simp add: view_defs)
  have h: "(0::nat) < length ?ts" "(2::nat) < length ?ts"
    "\<not> is_done (?ts ! (build_display_mapping ?ts ! 0))"
    "is_done (?ts ! (build_display_mapping ?ts ! 2))"
    by (simp_all add: m)
  have "distinct (build_display_mapping ?ts)" "(0::nat) < 2"
    using display_mapping_permutation [of ?ts] h by blast+
  then show ?thesis using m by blast
qed

section \<open>Order within the groups\<close>

lemma insort_key_by_index:
  assumes "sorted_wrt (\<lambda>a b. k a < k b \<or> (k a = k b \<and> fst a < fst b)) xs"
    and "\<forall>y\<in>set xs. fst x < fst y"
  shows "sorted_wrt (\<lambda>a b. k a < k b \<or> (k a = k b \<and> fst a < fst b)) (insort_key k x xs)"
  using assms
proof (induction xs)
  case Nil
  then show ?case by simp
next
  case (Cons y ys)
  show ?case
  proof (cases "k x \<le> k y")
    case True
    have "\<forall>z\<in>set ys. k y \<le> k z" using Cons.prems(1) by auto
    then have "\<forall>z\<in>set (y # ys). k x \<le> k z" using True by auto
    then have "\<forall>z\<in>set (y # ys). k x < k z \<or> (k x = k z \<and> fst x < fst z)"
      using Cons.prems(2) by force
    then show ?thesis using True Cons.prems(1) by simp
  next
    case False
    then have "k y < k x" by simp
    moreover have "sorted_wrt (\<lambda>a b. k a < k b \<or> (k a = k b \<and> fst a < fst b)) (insort_key k x ys)"
      using Cons by simp
    ultimately show ?thesis using False Cons.prems(1) by (auto simp: set_insort_key)
  qed
qed

lemma sort_key_by_index:
  assumes "sorted_wrt (\<lambda>a b. fst a < fst b) xs"
  shows "sorted_wrt (\<lambda>a b. k a < k b \<or> (k a = k b \<and> fst a < fst b)) (sort_key k xs)"
  using assms
proof (induction xs)
  case Nil
  then show ?case by simp
next
  case (Cons x xs)
  then show ?case by (simp add: insort_key_by_index)
qed

lemma enumerate_increasing: "sorted_wrt (\<lambda>a b. fst a < fst b) (enumerate n xs)"
proof -
  have "sorted_wrt (<) (map fst (enumerate n xs))" by simp
  then show ?thesis by (simp only: sorted_wrt_map)
qed

lemma sorted_indexed_lex:
  "sorted_wrt (\<lambda>a b. priority (snd a) < priority (snd b)
       \<or> (priority (snd a) = priority (snd b) \<and> fst a < fst b))
     (sorted_indexed_by_priority (indexed_tasks tasks))"
  unfolding sorted_indexed_by_priority_def indexed_tasks_def
  by (rule sort_key_by_index) (rule enumerate_increasing)

lemma group_order:
  assumes "sorted_wrt (\<lambda>a b. priority (snd a) < priority (snd b)
       \<or> (priority (snd a) = priority (snd b) \<and> fst a < fst b)) g"
  shows "sorted (map (\<lambda>pair. priority (snd pair)) g)
   \<and> (\<forall>i j. i < j \<longrightarrow> j < length g
         \<longrightarrow> priority (snd (g ! i)) = priority (snd (g ! j))
         \<longrightarrow> fst (g ! i) < fst (g ! j))"
proof -
  have "sorted_wrt (\<lambda>a b. priority (snd a) \<le> priority (snd b)) g"
    by (rule sorted_wrt_mono_rel [OF _ assms]) auto
  then have "sorted (map (\<lambda>pair. priority (snd pair)) g)"
    by (simp add: sorted_wrt_map)
  moreover have "\<forall>i j. i < j \<longrightarrow> j < length g
         \<longrightarrow> priority (snd (g ! i)) = priority (snd (g ! j))
         \<longrightarrow> fst (g ! i) < fst (g ! j)"
    using assms unfolding sorted_wrt_iff_nth_less by fastforce
  ultimately show ?thesis by simp
qed

text \<open>
  C2. In the undone group and in the done group of \<open>build_display_groups\<close>, priorities
  are non-decreasing along the group, and of two tasks of equal priority the one
  displayed earlier has the smaller original index.
\<close>

theorem display_groups_sorted_stable:
  "sorted (map (\<lambda>pair. priority (snd pair)) (fst (build_display_groups tasks)))
   \<and> (\<forall>i j. i < j \<longrightarrow> j < length (fst (build_display_groups tasks))
         \<longrightarrow> priority (snd (fst (build_display_groups tasks) ! i))
             = priority (snd (fst (build_display_groups tasks) ! j))
         \<longrightarrow> fst (fst (build_display_groups tasks) ! i)
             < fst (fst (build_display_groups tasks) ! j))
   \<and> sorted (map (\<lambda>pair. priority (snd pair)) (snd (build_display_groups tasks)))
   \<and> (\<forall>i j. i < j \<longrightarrow> j < length (snd (build_display_groups tasks))
         \<longrightarrow> priority (snd (snd (build_display_groups tasks) ! i))
             = priority (snd (snd (build_display_groups tasks) ! j))
         \<longrightarrow> fst (snd (build_display_groups tasks) ! i)
             < fst (snd (build_display_groups tasks) ! j))"
proof -
  have "sorted_wrt (\<lambda>a b. priority (snd a) < priority (snd b)
       \<or> (priority (snd a) = priority (snd b) \<and> fst a < fst b)) (fst (build_display_groups tasks))"
    unfolding fst_groups by (rule sorted_wrt_filter) (rule sorted_indexed_lex)
  moreover have "sorted_wrt (\<lambda>a b. priority (snd a) < priority (snd b)
       \<or> (priority (snd a) = priority (snd b) \<and> fst a < fst b)) (snd (build_display_groups tasks))"
    unfolding snd_groups by (rule sorted_wrt_filter) (rule sorted_indexed_lex)
  ultimately show ?thesis
    using group_order by blast
qed

text \<open>
  The theorem at a store of four tasks: the undone group is the second, the third and
  the first task, and the two tasks of priority 1 keep the order of their indices.
\<close>

theorem display_groups_sorted_stable_witness:
  "fst (build_display_groups
     [\<lparr>title = ''a'', is_done = False, priority = 2\<rparr>,
      \<lparr>title = ''b'', is_done = False, priority = 1\<rparr>,
      \<lparr>title = ''c'', is_done = False, priority = 1\<rparr>,
      \<lparr>title = ''d'', is_done = True, priority = 1\<rparr>])
    = [(1, \<lparr>title = ''b'', is_done = False, priority = 1\<rparr>),
       (2, \<lparr>title = ''c'', is_done = False, priority = 1\<rparr>),
       (0, \<lparr>title = ''a'', is_done = False, priority = 2\<rparr>)]
   \<and> fst (fst (build_display_groups
     [\<lparr>title = ''a'', is_done = False, priority = 2\<rparr>,
      \<lparr>title = ''b'', is_done = False, priority = 1\<rparr>,
      \<lparr>title = ''c'', is_done = False, priority = 1\<rparr>,
      \<lparr>title = ''d'', is_done = True, priority = 1\<rparr>]) ! 0)
     < fst (fst (build_display_groups
     [\<lparr>title = ''a'', is_done = False, priority = 2\<rparr>,
      \<lparr>title = ''b'', is_done = False, priority = 1\<rparr>,
      \<lparr>title = ''c'', is_done = False, priority = 1\<rparr>,
      \<lparr>title = ''d'', is_done = True, priority = 1\<rparr>]) ! 1)"
proof -
  let ?ts = "[\<lparr>title = ''a'', is_done = False, priority = 2\<rparr>,
      \<lparr>title = ''b'', is_done = False, priority = 1\<rparr>,
      \<lparr>title = ''c'', is_done = False, priority = 1\<rparr>,
      \<lparr>title = ''d'', is_done = True, priority = 1\<rparr>]"
  let ?g = "fst (build_display_groups ?ts)"
  have g: "?g = [(1, \<lparr>title = ''b'', is_done = False, priority = 1\<rparr>),
       (2, \<lparr>title = ''c'', is_done = False, priority = 1\<rparr>),
       (0, \<lparr>title = ''a'', is_done = False, priority = 2\<rparr>)]"
    by (simp add: view_defs)
  have h: "(0::nat) < 1" "1 < length ?g"
    "priority (snd (?g ! 0)) = priority (snd (?g ! 1))"
    by (simp_all add: g)
  have "fst (?g ! 0) < fst (?g ! 1)"
    using display_groups_sorted_stable [of ?ts] h by blast
  then show ?thesis using g by simp
qed

section \<open>Resolving a display number\<close>

lemma mapping_Nil: "build_display_mapping [] = []"
  by (simp add: view_defs)

lemma get_display_index_Some:
  "get_display_index tasks (Some n) =
     (if 1 \<le> n \<and> n \<le> int (length (build_display_mapping tasks))
      then Inr (build_display_mapping tasks ! nat (n - 1))
      else if tasks = [] then Inl NoTasksAvailable else Inl InvalidTaskNumber)"
  by (auto simp: get_display_index_def mapping_Nil)

lemma get_display_index_less:
  assumes "get_display_index tasks entered = Inr i"
  shows "i < length tasks"
proof -
  from assms obtain n where n: "entered = Some n" "1 \<le> n" "n \<le> int (length (build_display_mapping tasks))"
    and i: "i = build_display_mapping tasks ! nat (n - 1)"
    by (auto simp: get_display_index_def Let_def split: if_splits option.splits)
  from n have "nat (n - 1) < length tasks"
    by (simp add: length_mapping)
  then show ?thesis
    unfolding i by (rule mapping_nth_less)
qed

lemma display_number_exists:
  assumes "i < length tasks"
  shows "\<exists>n. get_display_index tasks (Some n) = Inr i"
proof -
  from assms have "i \<in> set (build_display_mapping tasks)"
    by (simp add: set_mapping)
  then obtain k where k: "k < length (build_display_mapping tasks)" "build_display_mapping tasks ! k = i"
    by (auto simp: in_set_conv_nth)
  then have "get_display_index tasks (Some (int k + 1)) = Inr i"
    by (simp add: get_display_index_Some)
  then show ?thesis ..
qed

text \<open>
  C3, as the program has it. For every store and every integer \<open>n\<close>, the lookup of the
  entered number \<open>n\<close> succeeds exactly when \<open>1 \<le> n \<le> length mapping\<close>, and then
  returns \<open>mapping[n-1]\<close>. For every other \<open>n\<close> it returns no index: on a store that
  holds a task it fails with ``Invalid task number.'', on the empty store it fails with
  ``No tasks available.'' (there the program returns before it asks for a number).
\<close>

theorem get_display_index_resolves:
  "(get_display_index tasks (Some n) = Inr i \<longleftrightarrow>
      1 \<le> n \<and> n \<le> int (length (build_display_mapping tasks))
      \<and> i = build_display_mapping tasks ! nat (n - 1))
   \<and> (\<not> (1 \<le> n \<and> n \<le> int (length (build_display_mapping tasks))) \<longrightarrow>
        get_display_index tasks (Some n) =
          (if tasks = [] then Inl NoTasksAvailable else Inl InvalidTaskNumber))"
  by (auto simp: get_display_index_Some)

text \<open>
  The theorem at a store of three tasks with mapping \<open>[2, 0, 1]\<close>: the number 2
  resolves to the original index 0, the number 4 is out of range.
\<close>

theorem get_display_index_resolves_witness:
  "get_display_index
     [\<lparr>title = ''a'', is_done = False, priority = 2\<rparr>,
      \<lparr>title = ''b'', is_done = True, priority = 1\<rparr>,
      \<lparr>title = ''c'', is_done = False, priority = 1\<rparr>] (Some 2) = Inr 0
   \<and> get_display_index
     [\<lparr>title = ''a'', is_done = False, priority = 2\<rparr>,
      \<lparr>title = ''b'', is_done = True, priority = 1\<rparr>,
      \<lparr>title = ''c'', is_done = False, priority = 1\<rparr>] (Some 4) = Inl InvalidTaskNumber"
proof -
  let ?ts = "[\<lparr>title = ''a'', is_done = False, priority = 2\<rparr>,
      \<lparr>title = ''b'', is_done = True, priority = 1\<rparr>,
      \<lparr>title = ''c'', is_done = False, priority = 1\<rparr>]"
  have m: "build_display_mapping ?ts = [2, 0, 1]"
    by (simp add: view_defs)
  have "get_display_index ?ts (Some 2) = Inr 0"
    using get_display_index_resolves [of ?ts 2 0] by (simp add: m)
  moreover have "get_display_index ?ts (Some 4) = Inl InvalidTaskNumber"
    using get_display_index_resolves [of ?ts 4 0] by (simp add: m)
  ultimately show ?thesis by simp
qed

text \<open>
  On the empty store the number 1 is out of range, and the lookup fails with
  ``No tasks available.'', not with the message of a number out of range.
\<close>

theorem get_display_index_empty_store_counterexample:
  "\<not> (1 \<le> (1::int) \<and> 1 \<le> int (length (build_display_mapping [])))
   \<and> get_display_index [] (Some 1) = Inl NoTasksAvailable
   \<and> get_display_index [] (Some 1) \<noteq> Inl InvalidTaskNumber"
  by (simp add: get_display_index_def mapping_Nil)

section \<open>Failed lookups leave the store alone\<close>

lemma lookup_fails_iff:
  "isl (get_display_index tasks entered) \<longleftrightarrow>
     tasks = [] \<or> entered = None
     \<or> (\<exists>n. entered = Some n \<and> \<not> (1 \<le> n \<and> n \<le> int (length (build_display_mapping tasks))))"
  by (cases entered) (auto simp: get_display_index_def Let_def)

text \<open>
  C10. The lookup of a display number fails exactly when the store is empty, the entered
  line is not an integer, or the entered number is outside \<open>1..length mapping\<close>; and
  whenever it fails, \<open>toggle_task\<close> and \<open>delete_task\<close> report its error and return the
  store they were given, task by task and field by field.
\<close>

theorem failed_lookup_no_mutation:
  "(isl (get_display_index tasks entered) \<longleftrightarrow>
     tasks = [] \<or> entered = None
     \<or> (\<exists>n. entered = Some n \<and> \<not> (1 \<le> n \<and> n \<le> int (length (build_display_mapping tasks)))))
   \<and> (isl (get_display_index tasks entered) \<longrightarrow>
        toggle_task tasks entered = (Inl (projl (get_display_index tasks entered)), tasks)
        \<and> delete_task tasks entered = (Inl (projl (get_display_index tasks entered)), tasks))"
  using lookup_fails_iff [of tasks entered]
  by (auto simp: toggle_task_def delete_task_def isl_def)

text \<open>
  The theorem at a store of one task with the number 2 and with a line that is not a
  number, and at the empty store.
\<close>

theorem failed_lookup_no_mutation_witness:
  "toggle_task [\<lparr>title = ''a'', is_done = False, priority = 2\<rparr>] (Some 2)
     = (Inl InvalidTaskNumber, [\<lparr>title = ''a'', is_done = False, priority = 2\<rparr>])
   \<and> delete_task [\<lparr>title = ''a'', is_done = False, priority = 2\<rparr>] (Some 2)
     = (Inl InvalidTaskNumber, [\<lparr>title = ''a'', is_done = False, priority = 2\<rparr>])
   \<and> delete_task [\<lparr>title = ''a'', is_done = False, priority = 2\<rparr>] None
     = (Inl NotANumber, [\<lparr>title = ''a'', is_done = False, priority = 2\<rparr>])
   \<and> toggle_task ([] :: char store) (Some 1) = (Inl NoTasksAvailable, [])"
proof -
  let ?ts = "[\<lparr>title = ''a'', is_done = False, priority = 2\<rparr>]"
  have a: "get_display_index ?ts (Some 2) = Inl InvalidTaskNumber"
    by (simp add: get_display_index_def view_defs)
  have b: "get_display_index ?ts None = Inl NotANumber"
    by (simp add: get_display_index_def view_defs)
  have c: "get_display_index ([] :: char store) (Some 1) = Inl NoTasksAvailable"
    by (simp add: get_display_index_def)
  show ?thesis
    using failed_lookup_no_mutation [of ?ts "Some 2"] failed_lookup_no_mutation [of ?ts None]
      failed_lookup_no_mutation [of "[] :: char store" "Some 1"]
    by (simp add: a b c)
qed

section \<open>Toggling\<close>

lemma toggle_task_resolved:
  assumes "get_display_index tasks entered = Inr i"
  shows "toggle_task tasks entered =
     (Inr (), tasks[i := (tasks ! i)\<lparr>is_done := \<not> is_done (tasks ! i)\<rparr>])"
  using assms get_display_index_less [OF assms] by (simp add: toggle_task_def)

text \<open>
  C9. Every valid original index \<open>i\<close> has a display number, and toggling the task at
  index \<open>i\<close> twice (each time through a display number that resolves to \<open>i\<close>) flips its
  \<open>done\<close> field and flips it back; both toggles succeed, the store keeps its size and
  after the second toggle it is the store before the first.
\<close>

theorem toggle_twice:
  "i < length tasks \<longrightarrow>
     (\<exists>n. get_display_index tasks (Some n) = Inr i)
     \<and> (\<forall>e1 e2. get_display_index tasks e1 = Inr i
           \<longrightarrow> get_display_index (snd (toggle_task tasks e1)) e2 = Inr i
           \<longrightarrow> fst (toggle_task tasks e1) = Inr ()
             \<and> fst (toggle_task (snd (toggle_task tasks e1)) e2) = Inr ()
             \<and> is_done (snd (toggle_task tasks e1) ! i) = (\<not> is_done (tasks ! i))
             \<and> is_done (snd (toggle_task (snd (toggle_task tasks e1)) e2) ! i) = is_done (tasks ! i)
             \<and> length (snd (toggle_task tasks e1)) = length tasks
             \<and> length (snd (toggle_task (snd (toggle_task tasks e1)) e2)) = length tasks
             \<and> snd (toggle_task (snd (toggle_task tasks e1)) e2) = tasks)"
proof (intro impI conjI allI)
  assume "i < length tasks"
  then show "\<exists>n. get_display_index tasks (Some n) = Inr i"
    by (rule display_number_exists)
next
  fix e1 e2
  assume i: "i < length tasks"
    and r1: "get_display_index tasks e1 = Inr i"
    and r2: "get_display_index (snd (toggle_task tasks e1)) e2 = Inr i"
  let ?t1 = "tasks[i := (tasks ! i)\<lparr>is_done := \<not> is_done (tasks ! i)\<rparr>]"
  have t1: "toggle_task tasks e1 = (Inr (), ?t1)"
    by (rule toggle_task_resolved [OF r1])
  have r2': "get_display_index ?t1 e2 = Inr i"
    using r2 by (simp add: t1)
  have t2: "toggle_task ?t1 e2 = (Inr (), tasks)"
    using i by (simp add: toggle_task_resolved [OF r2'])
  show "fst (toggle_task tasks e1) = Inr ()"
    "fst (toggle_task (snd (toggle_task tasks e1)) e2) = Inr ()"
    "is_done (snd (toggle_task tasks e1) ! i) = (\<not> is_done (tasks ! i))"
    "is_done (snd (toggle_task (snd (toggle_task tasks e1)) e2) ! i) = is_done (tasks ! i)"
    "length (snd (toggle_task tasks e1)) = length tasks"
    "length (snd (toggle_task (snd (toggle_task tasks e1)) e2)) = length tasks"
    "snd (toggle_task (snd (toggle_task tasks e1)) e2) = tasks"
    using i by (simp_all add: t1 t2)
qed

text \<open>
  The theorem at a store of two undone tasks of equal priority and \<open>i = 0\<close>: the task is
  number 1 before the first toggle and number 2 after it.
\<close>

theorem toggle_twice_witness:
  "get_display_index
     [\<lparr>title = ''a'', is_done = False, priority = 1\<rparr>,
      \<lparr>title = ''b'', is_done = False, priority = 1\<rparr>] (Some 1) = Inr 0
   \<and> get_display_index
     (snd (toggle_task
       [\<lparr>title = ''a'', is_done = False, priority = 1\<rparr>,
        \<lparr>title = ''b'', is_done = False, priority = 1\<rparr>] (Some 1))) (Some 2) = Inr 0
   \<and> snd (toggle_task
     (snd (toggle_task
       [\<lparr>title = ''a'', is_done = False, priority = 1\<rparr>,
        \<lparr>title = ''b'', is_done = False, priority = 1\<rparr>] (Some 1))) (Some 2))
     = [\<lparr>title = ''a'', is_done = False, priority = 1\<rparr>,
        \<lparr>title = ''b'', is_done = False, priority = 1\<rparr>]"
proof -
  let ?ts = "[\<lparr>title = ''a'', is_done = False, priority = 1\<rparr>,
      \<lparr>title = ''b'', is_done = False, priority = 1\<rparr>]"
  have i: "(0::nat) < length ?ts" by simp
  have r1: "get_display_index ?ts (Some 1) = Inr 0"
    by (simp add: get_display_index_def view_defs)
  have r2: "get_display_index (snd (toggle_task ?ts (Some 1))) (Some 2) = Inr 0"
    by (simp add: toggle_task_def get_display_index_def view_defs)
  have "snd (toggle_task (snd (toggle_task ?ts (Some 1))) (Some 2)) = ?ts"
    using toggle_twice [of 0 ?ts] i r1 r2 by blast
  then show ?thesis using r1 r2 by blast
qed

section \<open>Stripping\<close>

lemma strip_Nil_iff: "strip isspace s = [] \<longleftrightarrow> (\<forall>c\<in>set s. isspace c)"
proof
  assume "strip isspace s = []"
  then have "dropWhile isspace (rev (dropWhile isspace s)) = []"
    unfolding strip_def by simp
  then have all: "\<forall>c\<in>set (dropWhile isspace s). isspace c"
    unfolding dropWhile_eq_Nil_conv by simp
  have "dropWhile isspace s = []"
  proof (rule ccontr)
    assume ne: "dropWhile isspace s \<noteq> []"
    then have "\<not> isspace (hd (dropWhile isspace s))" by (rule hd_dropWhile)
    moreover have "hd (dropWhile isspace s) \<in> set (dropWhile isspace s)"
      using ne by (rule hd_in_set)
    ultimately show False using all by blast
  qed
  then show "\<forall>c\<in>set s. isspace c"
    unfolding dropWhile_eq_Nil_conv .
next
  assume "\<forall>c\<in>set s. isspace c"
  then have "dropWhile isspace s = []" unfolding dropWhile_eq_Nil_conv .
  then have "strip isspace s = rev (dropWhile isspace (rev []))" unfolding strip_def by (simp only:)
  then show "strip isspace s = []" by simp
qed





subsection \<open>The characters 0 to 255\<close>



section \<open>Adding a task\<close>

text \<open>
  C8. For every store, adding a task whose title line is empty or consists of white
  space only fails with ``Title cannot be empty.'' and returns the store it was given.
  White space is what \<^verbatim>\<open>str.isspace\<close> accepts, whatever that predicate is.
\<close>

theorem add_blank_title_fails:
  "(\<forall>c\<in>set line. isspace c) \<longrightarrow>
     add_task lower isspace tasks line entered = (Inl TitleEmpty, tasks)"
  by (simp add: add_task_def strip_Nil_iff [symmetric])

text \<open>
  The theorem at a line of a space, a tab and a space, at a line of a no-break space
  and a next-line control, and at the empty line.
\<close>

theorem add_blank_title_fails_witness:
  "add_task latin1_lower latin1_isspace [\<lparr>title = ''a'', is_done = False, priority = 2\<rparr>]
       [CHR '' '', CHR 0x09, CHR '' ''] [Some 1]
     = (Inl TitleEmpty, [\<lparr>title = ''a'', is_done = False, priority = 2\<rparr>])
   \<and> add_task latin1_lower latin1_isspace [\<lparr>title = ''a'', is_done = False, priority = 2\<rparr>]
       [CHR 0xA0, CHR 0x85] [Some 1]
     = (Inl TitleEmpty, [\<lparr>title = ''a'', is_done = False, priority = 2\<rparr>])
   \<and> add_task latin1_lower latin1_isspace [] [] [Some 1] = (Inl TitleEmpty, [])"
proof -
  have "\<forall>c\<in>set [CHR '' '', CHR 0x09, CHR '' '']. latin1_isspace c"
    by (simp add: latin1_isspace_def)
  moreover have "\<forall>c\<in>set [CHR 0xA0, CHR 0x85]. latin1_isspace c"
    by (simp add: latin1_isspace_def)
  moreover have "\<forall>c\<in>set []. latin1_isspace c" by simp
  ultimately show ?thesis
    using add_blank_title_fails [where isspace = latin1_isspace and lower = latin1_lower
          and line = "[CHR '' '', CHR 0x09, CHR '' '']"
          and tasks = "[\<lparr>title = ''a'', is_done = False, priority = 2\<rparr>]" and entered = "[Some 1]"]
      add_blank_title_fails [where isspace = latin1_isspace and lower = latin1_lower
          and line = "[CHR 0xA0, CHR 0x85]"
          and tasks = "[\<lparr>title = ''a'', is_done = False, priority = 2\<rparr>]" and entered = "[Some 1]"]
      add_blank_title_fails [where isspace = latin1_isspace and lower = latin1_lower
          and line = "[]" and tasks = "[]" and entered = "[Some 1]"]
    by blast
qed













section \<open>Titles stay unique\<close>







section \<open>Deleting\<close>

lemma delete_task_resolved:
  assumes "get_display_index tasks entered = Inr d"
  shows "delete_task tasks entered = (Inr (), take d tasks @ drop (Suc d) tasks)"
  using assms get_display_index_less [OF assms] by (simp add: delete_task_def)

lemma nth_deleted:
  assumes "d < length tasks"
  shows "j < d \<Longrightarrow> (take d tasks @ drop (Suc d) tasks) ! j = tasks ! j"
    and "d \<le> j \<Longrightarrow> j < length tasks - 1 \<Longrightarrow> (take d tasks @ drop (Suc d) tasks) ! j = tasks ! Suc j"
  using assms by (simp_all add: nth_append min_def)

text \<open>
  C4, as the program has it. For every store of \<open>n\<close> tasks and every valid display
  position \<open>k\<close>, \<open>delete_task\<close> resolves \<open>k\<close> to the original index \<open>d = mapping[k-1]\<close> and
  succeeds; the store afterwards is the store before without the task at index \<open>d\<close>,
  so it has \<open>n - 1\<close> tasks, the tasks before \<open>d\<close> keep their indices and every later task
  moves down by one; and the display mapping computed afterwards is a permutation of
  \<open>0..n-2\<close>, the indices of the remaining tasks. (The index \<open>d\<close> is among them again
  unless the deleted task was the last of the store.)
\<close>

theorem delete_task_removes_one:
  "1 \<le> k \<and> k \<le> int (length (build_display_mapping tasks)) \<longrightarrow>
     get_display_index tasks (Some k) = Inr (build_display_mapping tasks ! nat (k - 1))
     \<and> build_display_mapping tasks ! nat (k - 1) < length tasks
     \<and> fst (delete_task tasks (Some k)) = Inr ()
     \<and> snd (delete_task tasks (Some k))
         = take (build_display_mapping tasks ! nat (k - 1)) tasks
           @ drop (Suc (build_display_mapping tasks ! nat (k - 1))) tasks
     \<and> Suc (length (snd (delete_task tasks (Some k)))) = length tasks
     \<and> (\<forall>j. j < build_display_mapping tasks ! nat (k - 1) \<longrightarrow>
           snd (delete_task tasks (Some k)) ! j = tasks ! j)
     \<and> (\<forall>j. build_display_mapping tasks ! nat (k - 1) \<le> j \<longrightarrow> j < length tasks - 1 \<longrightarrow>
           snd (delete_task tasks (Some k)) ! j = tasks ! Suc j)
     \<and> distinct (build_display_mapping (snd (delete_task tasks (Some k))))
     \<and> set (build_display_mapping (snd (delete_task tasks (Some k)))) = {0..<length tasks - 1}"
proof
  let ?d = "build_display_mapping tasks ! nat (k - 1)"
  let ?ts = "take ?d tasks @ drop (Suc ?d) tasks"
  assume k: "1 \<le> k \<and> k \<le> int (length (build_display_mapping tasks))"
  then have r: "get_display_index tasks (Some k) = Inr ?d"
    by (simp add: get_display_index_Some)
  then have d: "?d < length tasks"
    by (rule get_display_index_less)
  have del: "delete_task tasks (Some k) = (Inr (), ?ts)"
    by (rule delete_task_resolved [OF r])
  have len: "Suc (length ?ts) = length tasks"
    using d by simp
  then have len': "length ?ts = length tasks - 1" by simp
  have "\<forall>j. j < ?d \<longrightarrow> ?ts ! j = tasks ! j"
    using nth_deleted(1) [OF d] by blast
  moreover have "\<forall>j. ?d \<le> j \<longrightarrow> j < length tasks - 1 \<longrightarrow> ?ts ! j = tasks ! Suc j"
    using nth_deleted(2) [OF d] by blast
  moreover have "distinct (build_display_mapping ?ts)"
    by (rule distinct_mapping)
  moreover have "set (build_display_mapping ?ts) = {0..<length tasks - 1}"
    by (simp only: set_mapping len')
  ultimately show "get_display_index tasks (Some k) = Inr ?d
     \<and> ?d < length tasks
     \<and> fst (delete_task tasks (Some k)) = Inr ()
     \<and> snd (delete_task tasks (Some k)) = ?ts
     \<and> Suc (length (snd (delete_task tasks (Some k)))) = length tasks
     \<and> (\<forall>j. j < ?d \<longrightarrow> snd (delete_task tasks (Some k)) ! j = tasks ! j)
     \<and> (\<forall>j. ?d \<le> j \<longrightarrow> j < length tasks - 1 \<longrightarrow>
           snd (delete_task tasks (Some k)) ! j = tasks ! Suc j)
     \<and> distinct (build_display_mapping (snd (delete_task tasks (Some k))))
     \<and> set (build_display_mapping (snd (delete_task tasks (Some k)))) = {0..<length tasks - 1}"
    using r d len unfolding del fst_conv snd_conv by blast
qed

text \<open>
  The theorem at a store of three tasks with mapping \<open>[2, 0, 1]\<close> and \<open>k = 3\<close>: the task at
  index 1 goes, and the mapping afterwards has the indices 0 and 1.
\<close>

theorem delete_task_removes_one_witness:
  "build_display_mapping
     [\<lparr>title = ''a'', is_done = False, priority = 2\<rparr>,
      \<lparr>title = ''b'', is_done = True, priority = 1\<rparr>,
      \<lparr>title = ''c'', is_done = False, priority = 1\<rparr>] ! nat (3 - 1) = 1
   \<and> snd (delete_task
     [\<lparr>title = ''a'', is_done = False, priority = 2\<rparr>,
      \<lparr>title = ''b'', is_done = True, priority = 1\<rparr>,
      \<lparr>title = ''c'', is_done = False, priority = 1\<rparr>] (Some 3))
     = [\<lparr>title = ''a'', is_done = False, priority = 2\<rparr>,
        \<lparr>title = ''c'', is_done = False, priority = 1\<rparr>]
   \<and> set (build_display_mapping (snd (delete_task
     [\<lparr>title = ''a'', is_done = False, priority = 2\<rparr>,
      \<lparr>title = ''b'', is_done = True, priority = 1\<rparr>,
      \<lparr>title = ''c'', is_done = False, priority = 1\<rparr>] (Some 3)))) = {0..<2}"
proof -
  let ?ts = "[\<lparr>title = ''a'', is_done = False, priority = 2\<rparr>,
      \<lparr>title = ''b'', is_done = True, priority = 1\<rparr>,
      \<lparr>title = ''c'', is_done = False, priority = 1\<rparr>]"
  have m: "build_display_mapping ?ts = [2, 0, 1]"
    by (simp add: view_defs)
  have k: "1 \<le> (3::int) \<and> 3 \<le> int (length (build_display_mapping ?ts))"
    by (simp add: m)
  have d: "build_display_mapping ?ts ! nat (3 - 1) = 1"
    by (simp add: m)
  have "snd (delete_task ?ts (Some 3)) = take 1 ?ts @ drop (Suc 1) ?ts"
    "set (build_display_mapping (snd (delete_task ?ts (Some 3)))) = {0..<length ?ts - 1}"
    using delete_task_removes_one [of 3 ?ts] k unfolding d by blast+
  then show ?thesis using d by (simp add: numeral_2_eq_2)
qed

text \<open>
  Deleting display position 1 of a store of two tasks removes the task at original
  index 0, and the mapping computed afterwards references index 0 again.
\<close>

theorem delete_task_index_reused_counterexample:
  "get_display_index
     [\<lparr>title = ''a'', is_done = False, priority = 1\<rparr>,
      \<lparr>title = ''b'', is_done = False, priority = 1\<rparr>] (Some 1) = Inr 0
   \<and> snd (delete_task
     [\<lparr>title = ''a'', is_done = False, priority = 1\<rparr>,
      \<lparr>title = ''b'', is_done = False, priority = 1\<rparr>] (Some 1))
     = [\<lparr>title = ''b'', is_done = False, priority = 1\<rparr>]
   \<and> 0 \<in> set (build_display_mapping (snd (delete_task
     [\<lparr>title = ''a'', is_done = False, priority = 1\<rparr>,
      \<lparr>title = ''b'', is_done = False, priority = 1\<rparr>] (Some 1))))"
  by (simp add: op_defs view_defs)

section \<open>Searching\<close>














end
